theory Spec2Isabelle
  imports Main "HOL-Library.Multiset"
begin

section \<open>The credential store of \<^verbatim>\<open>src/lib/db/db.ts\<close>\<close>

text \<open>
  The class \<^verbatim>\<open>DatabaseManager\<close> wraps one IndexedDB object store whose key path is
  the field \<^verbatim>\<open>id\<close>. This theory embeds its operations as functions on an explicit
  state and settles the properties the specification states about them.

  Conventions of the embedding.
  \<^item> A JavaScript string is the list of its UTF-16 code units, each a natural number
    (below 65536 in a real string). \<open>lit\<close> writes a string of code units below 256
    from a literal.
  \<^item> \<^verbatim>\<open>String.prototype.toLowerCase\<close> belongs to the platform, not to the source.
    The operations that call it take it as the argument \<open>toLowerCase\<close>, and what is
    proved about them holds for every function in its place.
  \<^item> A timestamp is held as its time value, the number of milliseconds since the epoch
    that \<^verbatim>\<open>new Date(iso).getTime()\<close> reads back from the text written by
    \<^verbatim>\<open>toISOString()\<close>. A timestamp field that is absent (or falsy) is \<open>None\<close>.
  \<^item> The clock (\<^verbatim>\<open>new Date()\<close>, \<^verbatim>\<open>Date.now()\<close>) and the random suffix are
    inputs of the operations that read them.
  \<^item> A promise is the pair of its outcome (\<open>Inl\<close> the rejection, \<open>Inr\<close> the value)
    and the state after the operation.
\<close>

subsection \<open>Records of the store\<close>

text \<open>
  \<^verbatim>\<open>PasswordInsert\<close> and \<^verbatim>\<open>PasswordEntry\<close> are imported by the source from
  \<^verbatim>\<open>@/lib/types/models\<close>. An entry is the insert data together with the identifier
  and the two timestamps, which is how \<^verbatim>\<open>addPassword\<close> builds it.
\<close>

type_synonym code_unit = nat

type_synonym jsstring = "code_unit list"

definition lit :: "string \<Rightarrow> jsstring" where
  "lit s = map of_char s"

record PasswordInsert =
  service :: jsstring
  username :: jsstring
  password :: jsstring

record PasswordEntry = PasswordInsert +
  id_entry :: jsstring
  createdAt :: "int option"
  updatedAt :: "int option"

text \<open>
  \<^verbatim>\<open>Partial<PasswordInsert>\<close>: every field may be missing. \<open>None\<close> is a property
  that the object does not have.
\<close>

record PasswordUpdates =
  service_upd :: "jsstring option"
  username_upd :: "jsstring option"
  password_upd :: "jsstring option"

subsection \<open>String primitives\<close>

text \<open>What \<^verbatim>\<open>trim\<close> strips from both ends: the white space of ECMAScript (TAB, VT,
  FF, SPACE, NBSP, ZWNBSP and the other space separators) and its line terminators (LF,
  CR, LS, PS).\<close>

definition is_space :: "code_unit \<Rightarrow> bool" where
  "is_space c =
     (c \<in> {0x9, 0xA, 0xB, 0xC, 0xD, 0x20, 0xA0, 0x1680, 0x2028, 0x2029, 0x202F, 0x205F,
            0x3000, 0xFEFF}
      \<or> (0x2000 \<le> c \<and> c \<le> 0x200A))"

definition trim :: "jsstring \<Rightarrow> jsstring" where
  "trim s = rev (dropWhile is_space (rev (dropWhile is_space s)))"

text \<open>\<^verbatim>\<open>s.includes(t)\<close>: \<open>t\<close> occurs in \<open>s\<close> as a contiguous block.\<close>

fun starts_with :: "jsstring \<Rightarrow> jsstring \<Rightarrow> bool" where
  "starts_with s [] = True"
| "starts_with [] (c # t) = False"
| "starts_with (d # s) (c # t) = (d = c \<and> starts_with s t)"

fun includes_str :: "jsstring \<Rightarrow> jsstring \<Rightarrow> bool" where
  "includes_str [] t = (t = [])"
| "includes_str (d # s) t = (starts_with (d # s) t \<or> includes_str s t)"

text \<open>The decimal text of an integer, as a template literal writes a number.\<close>

definition digit_char :: "nat \<Rightarrow> code_unit" where
  "digit_char d = 48 + d"

fun digits :: "nat \<Rightarrow> jsstring" where
  "digits n = (if n < 10 then [digit_char n] else digits (n div 10) @ [digit_char (n mod 10)])"

declare digits.simps [simp del]

definition number_text :: "int \<Rightarrow> jsstring" where
  "number_text i = (if i < 0 then 0x2D # digits (nat (- i)) else digits (nat i))"

subsection \<open>The storage engine\<close>

text \<open>
  An IndexedDB request ends in \<^verbatim>\<open>onsuccess\<close> with a result or in \<^verbatim>\<open>onerror\<close>.
  The object store is the list of its records in ascending key order, which is what
  \<^verbatim>\<open>getAll()\<close> returns. Keys are strings and compare code unit by code unit.

  The engine is taken as available: \<^verbatim>\<open>open\<close>, \<^verbatim>\<open>getAll\<close>, \<^verbatim>\<open>get\<close>,
  \<^verbatim>\<open>put\<close>, \<^verbatim>\<open>delete\<close> and \<^verbatim>\<open>clear\<close> succeed, and \<^verbatim>\<open>add\<close> fails exactly
  when the key is already present (the engine's constraint error).
\<close>

datatype 'a IDBRequest = onsuccess 'a | onerror

type_synonym objectStore = "PasswordEntry list"

fun key_less :: "jsstring \<Rightarrow> jsstring \<Rightarrow> bool" where
  "key_less [] [] = False"
| "key_less [] (c # t) = True"
| "key_less (d # s) [] = False"
| "key_less (d # s) (c # t) =
     (d < c \<or> (d = c \<and> key_less s t))"

fun store_find :: "jsstring \<Rightarrow> objectStore \<Rightarrow> PasswordEntry option" where
  "store_find k [] = None"
| "store_find k (e # es) = (if id_entry e = k then Some e else store_find k es)"

text \<open>A record with a new key goes before the first record with a greater key; a
  record with a key of the store takes the place of the record under that key.\<close>

fun store_insert :: "PasswordEntry \<Rightarrow> objectStore \<Rightarrow> objectStore" where
  "store_insert r [] = [r]"
| "store_insert r (e # es) =
     (if key_less (id_entry r) (id_entry e) then r # e # es else e # store_insert r es)"

definition store_replace :: "PasswordEntry \<Rightarrow> objectStore \<Rightarrow> objectStore" where
  "store_replace r es = map (\<lambda>e. if id_entry e = id_entry r then r else e) es"

definition idb_open :: "unit IDBRequest" where
  "idb_open = onsuccess ()"

definition store_getAll :: "objectStore \<Rightarrow> PasswordEntry list IDBRequest" where
  "store_getAll es = onsuccess es"

definition store_get :: "jsstring \<Rightarrow> objectStore \<Rightarrow> PasswordEntry option IDBRequest" where
  "store_get k es = onsuccess (store_find k es)"

definition store_add :: "PasswordEntry \<Rightarrow> objectStore \<Rightarrow> objectStore IDBRequest" where
  "store_add r es =
     (case store_find (id_entry r) es of
        Some e \<Rightarrow> onerror
      | None \<Rightarrow> onsuccess (store_insert r es))"

definition store_put :: "PasswordEntry \<Rightarrow> objectStore \<Rightarrow> objectStore IDBRequest" where
  "store_put r es =
     (case store_find (id_entry r) es of
        Some e \<Rightarrow> onsuccess (store_replace r es)
      | None \<Rightarrow> onsuccess (store_insert r es))"

definition store_delete :: "jsstring \<Rightarrow> objectStore \<Rightarrow> objectStore IDBRequest" where
  "store_delete k es = onsuccess (filter (\<lambda>e. id_entry e \<noteq> k) es)"

definition store_clear :: "objectStore \<Rightarrow> objectStore IDBRequest" where
  "store_clear es = onsuccess []"

subsection \<open>Sorting\<close>

text \<open>
  \<^verbatim>\<open>Array.prototype.sort\<close> with a comparison function is stable: an element goes
  before the first element it does not compare greater than, and elements that compare
  equal keep their order. For a consistent comparison function that fixes the result.
\<close>

fun sort_insert :: "('a \<Rightarrow> 'a \<Rightarrow> int) \<Rightarrow> 'a \<Rightarrow> 'a list \<Rightarrow> 'a list" where
  "sort_insert cmp x [] = [x]"
| "sort_insert cmp x (y # ys) =
     (if cmp x y \<le> 0 then x # y # ys else y # sort_insert cmp x ys)"

fun array_sort :: "('a \<Rightarrow> 'a \<Rightarrow> int) \<Rightarrow> 'a list \<Rightarrow> 'a list" where
  "array_sort cmp [] = []"
| "array_sort cmp (x # xs) = sort_insert cmp x (array_sort cmp xs)"

text \<open>\<^verbatim>\<open>new Date(p.updatedAt || 0).getTime()\<close>\<close>

definition updatedAt_time :: "PasswordEntry \<Rightarrow> int" where
  "updatedAt_time p = (case updatedAt p of None \<Rightarrow> 0 | Some t \<Rightarrow> t)"

text \<open>The comparison function of both sorts: \<^verbatim>\<open>(a, b) => time(b) - time(a)\<close>.\<close>

definition by_updatedAt_desc :: "PasswordEntry \<Rightarrow> PasswordEntry \<Rightarrow> int" where
  "by_updatedAt_desc a b = updatedAt_time b - updatedAt_time a"

subsection \<open>The database manager\<close>

text \<open>The rejections of the source, one constructor for each message.\<close>

datatype error =
    OpenFailed
  | ListFailed
  | SearchFailed
  | AddFailed
  | NotFound
  | UpdateFailed
  | FindForUpdateFailed
  | DeleteFailed
  | ClearFailed

text \<open>\<open>db\<close> is false while the handle \<^verbatim>\<open>this.db\<close> is \<^verbatim>\<open>null\<close>; \<open>table\<close> is the
  content of the object store.\<close>

record DatabaseManager =
  db :: bool
  table :: objectStore

type_synonym 'a promise = "(error + 'a) \<times> DatabaseManager"

definition initialize :: "DatabaseManager \<Rightarrow> unit promise" where
  "initialize m =
     (case idb_open of
        onerror \<Rightarrow> (Inl OpenFailed, m)
      | onsuccess u \<Rightarrow> (Inr (), m\<lparr>db := True\<rparr>))"

definition ensureInitialized :: "DatabaseManager \<Rightarrow> unit promise" where
  "ensureInitialized m = (if \<not> db m then initialize m else (Inr (), m))"

definition generateId :: "int \<Rightarrow> jsstring \<Rightarrow> jsstring" where
  "generateId now suffix = lit ''pwd_'' @ number_text now @ lit ''_'' @ suffix"

definition getAllPasswords :: "DatabaseManager \<Rightarrow> PasswordEntry list promise" where
  "getAllPasswords m =
     (case ensureInitialized m of
        (Inl e, m') \<Rightarrow> (Inl e, m')
      | (Inr u, m') \<Rightarrow>
          (case store_getAll (table m') of
             onsuccess result \<Rightarrow> (Inr (array_sort by_updatedAt_desc result), m')
           | onerror \<Rightarrow> (Inl ListFailed, m')))"

text \<open>The test of the filter in \<^verbatim>\<open>searchPasswords\<close>. \<open>toLowerCase\<close> is the platform's
  \<^verbatim>\<open>String.prototype.toLowerCase\<close>; the search term is the lower-cased query.\<close>

definition matches :: "(jsstring \<Rightarrow> jsstring) \<Rightarrow> jsstring \<Rightarrow> PasswordEntry \<Rightarrow> bool" where
  "matches toLowerCase searchTerm p =
     (includes_str (toLowerCase (service p)) searchTerm \<or>
      includes_str (toLowerCase (username p)) searchTerm)"

definition searchPasswords ::
  "(jsstring \<Rightarrow> jsstring) \<Rightarrow> jsstring \<Rightarrow> DatabaseManager \<Rightarrow> PasswordEntry list promise" where
  "searchPasswords toLowerCase query m =
     (if trim query = [] then getAllPasswords m
      else
        (case ensureInitialized m of
           (Inl e, m') \<Rightarrow> (Inl e, m')
         | (Inr u, m') \<Rightarrow>
             (case store_getAll (table m') of
                onsuccess allPasswords \<Rightarrow>
                  (let searchTerm = toLowerCase query;
                       filtered = filter (matches toLowerCase searchTerm) allPasswords;
                       sorted = array_sort by_updatedAt_desc filtered
                   in (Inr sorted, m'))
              | onerror \<Rightarrow> (Inl SearchFailed, m'))))"

text \<open>\<open>now\<close> is the reading of \<^verbatim>\<open>new Date()\<close>, \<open>idNow\<close> the later reading of
  \<^verbatim>\<open>Date.now()\<close> inside \<^verbatim>\<open>generateId\<close>, \<open>suffix\<close> the text
  \<^verbatim>\<open>Math.random().toString(36).substr(2, 9)\<close>.\<close>

definition addPassword ::
  "int \<Rightarrow> int \<Rightarrow> jsstring \<Rightarrow> PasswordInsert \<Rightarrow> DatabaseManager \<Rightarrow> PasswordEntry promise" where
  "addPassword now idNow suffix passwordData m =
     (case ensureInitialized m of
        (Inl e, m') \<Rightarrow> (Inl e, m')
      | (Inr u, m') \<Rightarrow>
          (let newPassword =
                 \<lparr> service = service passwordData,
                   username = username passwordData,
                   password = password passwordData,
                   id_entry = generateId idNow suffix,
                   createdAt = Some now,
                   updatedAt = Some now \<rparr>
           in case store_add newPassword (table m') of
                onsuccess es \<Rightarrow> (Inr newPassword, m'\<lparr>table := es\<rparr>)
              | onerror \<Rightarrow> (Inl AddFailed, m')))"

text \<open>\<^verbatim>\<open>{...existingPassword, ...updates, updatedAt: now}\<close>\<close>

definition merge_updates :: "PasswordEntry \<Rightarrow> PasswordUpdates \<Rightarrow> int \<Rightarrow> PasswordEntry" where
  "merge_updates existingPassword updates now =
     existingPassword
       \<lparr> service := (case service_upd updates of None \<Rightarrow> service existingPassword | Some v \<Rightarrow> v),
         username := (case username_upd updates of None \<Rightarrow> username existingPassword | Some v \<Rightarrow> v),
         password := (case password_upd updates of None \<Rightarrow> password existingPassword | Some v \<Rightarrow> v),
         updatedAt := Some now \<rparr>"

definition updatePassword ::
  "int \<Rightarrow> jsstring \<Rightarrow> PasswordUpdates \<Rightarrow> DatabaseManager \<Rightarrow> PasswordEntry promise" where
  "updatePassword now k updates m =
     (case ensureInitialized m of
        (Inl e, m') \<Rightarrow> (Inl e, m')
      | (Inr u, m') \<Rightarrow>
          (case store_get k (table m') of
             onerror \<Rightarrow> (Inl FindForUpdateFailed, m')
           | onsuccess None \<Rightarrow> (Inl NotFound, m')
           | onsuccess (Some existingPassword) \<Rightarrow>
               (let updatedPassword = merge_updates existingPassword updates now
                in case store_put updatedPassword (table m') of
                     onsuccess es \<Rightarrow> (Inr updatedPassword, m'\<lparr>table := es\<rparr>)
                   | onerror \<Rightarrow> (Inl UpdateFailed, m'))))"

definition deletePassword :: "jsstring \<Rightarrow> DatabaseManager \<Rightarrow> unit promise" where
  "deletePassword k m =
     (case ensureInitialized m of
        (Inl e, m') \<Rightarrow> (Inl e, m')
      | (Inr u, m') \<Rightarrow>
          (case store_delete k (table m') of
             onsuccess es \<Rightarrow> (Inr (), m'\<lparr>table := es\<rparr>)
           | onerror \<Rightarrow> (Inl DeleteFailed, m')))"

definition clearAll :: "DatabaseManager \<Rightarrow> unit promise" where
  "clearAll m =
     (case ensureInitialized m of
        (Inl e, m') \<Rightarrow> (Inl e, m')
      | (Inr u, m') \<Rightarrow>
          (case store_clear (table m') of
             onsuccess es \<Rightarrow> (Inr (), m'\<lparr>table := es\<rparr>)
           | onerror \<Rightarrow> (Inl ClearFailed, m')))"

subsection \<open>Notions of the specification\<close>

text \<open>
  The last-modified field \<open>a\<close> is not earlier than the last-modified field \<open>b\<close>. A
  record without the field counts as modified at the epoch.
\<close>

fun later_or_same :: "int option \<Rightarrow> int option \<Rightarrow> bool" where
  "later_or_same (Some ta) (Some tb) = (tb \<le> ta)"
| "later_or_same (Some ta) None = (0 \<le> ta)"
| "later_or_same None (Some tb) = (tb \<le> 0)"
| "later_or_same None None = True"

text \<open>Most recent first: every record of the list is modified no earlier than each
  record that comes after it.\<close>

definition newest_first :: "PasswordEntry list \<Rightarrow> bool" where
  "newest_first rs = sorted_wrt (\<lambda>a b. later_or_same (updatedAt a) (updatedAt b)) rs"

text \<open>\<open>t\<close> is a substring of \<open>s\<close>: a contiguous block of it.\<close>

definition block_of :: "jsstring \<Rightarrow> jsstring \<Rightarrow> bool" where
  "block_of t s = (\<exists>ps ss. s = ps @ t @ ss)"

text \<open>The records stand in strictly ascending order of their keys.\<close>

definition key_ordered :: "objectStore \<Rightarrow> bool" where
  "key_ordered es = sorted_wrt key_less (map id_entry es)"

text \<open>Both timestamps of a record are set.\<close>

definition has_timestamps :: "PasswordEntry \<Rightarrow> bool" where
  "has_timestamps e = (createdAt e \<noteq> None \<and> updatedAt e \<noteq> None)"

subsection \<open>Lower-casing on a part of Unicode\<close>

text \<open>
  To run the search on concrete strings a lower-casing function is needed.
  \<open>lower_fragment\<close> is \<^verbatim>\<open>String.prototype.toLowerCase\<close> on the strings whose code
  units are below 256, U+0130, U+0307 or Greek letters from U+0391 to U+03CB. It has the
  two rules of the Unicode algorithm that are not letter by letter: capital sigma U+03A3
  becomes final sigma U+03C2 when a cased letter stands before it and none after it
  (code units that are ignorable for case skipped on both sides), and small sigma U+03C3
  otherwise; U+0130 becomes the two code units U+0069 U+0307. Outside these strings it
  is not the platform's function, and nothing general is proved from it.
\<close>

definition cased :: "code_unit \<Rightarrow> bool" where
  "cased c =
     ((0x41 \<le> c \<and> c \<le> 0x5A) \<or> (0x61 \<le> c \<and> c \<le> 0x7A)
      \<or> c = 0xAA \<or> c = 0xB5 \<or> c = 0xBA
      \<or> (0xC0 \<le> c \<and> c \<le> 0xD6) \<or> (0xD8 \<le> c \<and> c \<le> 0xF6) \<or> (0xF8 \<le> c \<and> c \<le> 0xFF)
      \<or> c = 0x130
      \<or> (0x391 \<le> c \<and> c \<le> 0x3A1) \<or> (0x3A3 \<le> c \<and> c \<le> 0x3CB))"

definition case_ignorable :: "code_unit \<Rightarrow> bool" where
  "case_ignorable c =
     (c \<in> {0x27, 0x2E, 0x3A, 0x5E, 0x60, 0xA8, 0xAD, 0xAF, 0xB4, 0xB7, 0xB8, 0x307})"

text \<open>Going away from a position, the first code unit that is not ignorable for case
  is a cased letter.\<close>

definition next_is_cased :: "jsstring \<Rightarrow> bool" where
  "next_is_cased s = (case dropWhile case_ignorable s of [] \<Rightarrow> False | c # cs \<Rightarrow> cased c)"

text \<open>\<open>bef\<close> is what stands before the position, nearest code unit first; \<open>aft\<close> is
  what stands after it.\<close>

definition final_sigma :: "jsstring \<Rightarrow> jsstring \<Rightarrow> bool" where
  "final_sigma bef aft = (next_is_cased bef \<and> \<not> next_is_cased aft)"

definition lower_unit :: "bool \<Rightarrow> code_unit \<Rightarrow> jsstring" where
  "lower_unit final c =
     (if c = 0x3A3 then (if final then [0x3C2] else [0x3C3])
      else if c = 0x130 then [0x69, 0x307]
      else if (0x41 \<le> c \<and> c \<le> 0x5A) \<or> (0xC0 \<le> c \<and> c \<le> 0xDE \<and> c \<noteq> 0xD7)
              \<or> (0x391 \<le> c \<and> c \<le> 0x3AB \<and> c \<noteq> 0x3A2)
           then [c + 32]
      else [c])"

fun lower_from :: "jsstring \<Rightarrow> jsstring \<Rightarrow> jsstring" where
  "lower_from bef [] = []"
| "lower_from bef (c # aft) =
     lower_unit (final_sigma bef aft) c @ lower_from (c # bef) aft"

definition lower_fragment :: "jsstring \<Rightarrow> jsstring" where
  "lower_fragment s = lower_from [] s"

subsection \<open>Histories\<close>

text \<open>
  A call of the manager together with what it takes from its environment (clock
  readings, the random suffix, the platform's lower-casing), and the state that a
  sequence of calls leaves. \<open>readings\<close> lists the clock readings of a call in the order
  in which the call takes them.
\<close>

datatype operation =
    Add int int jsstring PasswordInsert
  | Update int jsstring PasswordUpdates
  | Delete jsstring
  | ListAll
  | Search "jsstring \<Rightarrow> jsstring" jsstring
  | Clear

fun perform :: "operation \<Rightarrow> DatabaseManager \<Rightarrow> DatabaseManager" where
  "perform (Add now idNow suffix passwordData) m = snd (addPassword now idNow suffix passwordData m)"
| "perform (Update now k updates) m = snd (updatePassword now k updates m)"
| "perform (Delete k) m = snd (deletePassword k m)"
| "perform ListAll m = snd (getAllPasswords m)"
| "perform (Search toLowerCase query) m = snd (searchPasswords toLowerCase query m)"
| "perform Clear m = snd (clearAll m)"

fun run :: "operation list \<Rightarrow> DatabaseManager \<Rightarrow> DatabaseManager" where
  "run [] m = m"
| "run (c # cs) m = run cs (perform c m)"

fun readings :: "operation \<Rightarrow> int list" where
  "readings (Add now idNow suffix passwordData) = [now, idNow]"
| "readings (Update now k updates) = [now]"
| "readings (Delete k) = []"
| "readings ListAll = []"
| "readings (Search toLowerCase query) = []"
| "readings Clear = []"

definition clock_trace :: "operation list \<Rightarrow> int list" where
  "clock_trace cs = concat (map readings cs)"

subsection \<open>Sample data\<close>

text \<open>The three entries of the specification's search example.\<close>

definition entry_github :: PasswordEntry where
  "entry_github =
     \<lparr> service = lit ''GitHub'', username = lit ''alice'', password = lit ''pw1'',
       id_entry = lit ''pwd_1_a'', createdAt = Some 1, updatedAt = Some 1 \<rparr>"

definition entry_gitlab :: PasswordEntry where
  "entry_gitlab =
     \<lparr> service = lit ''gitlab'', username = lit ''bob'', password = lit ''pw2'',
       id_entry = lit ''pwd_2_b'', createdAt = Some 2, updatedAt = Some 3 \<rparr>"

definition entry_twitter :: PasswordEntry where
  "entry_twitter =
     \<lparr> service = lit ''Twitter'', username = lit ''carol'', password = lit ''pw3'',
       id_entry = lit ''pwd_3_c'', createdAt = Some 2, updatedAt = Some 2 \<rparr>"

definition sample_manager :: DatabaseManager where
  "sample_manager = \<lparr> db = False, table = [entry_github, entry_gitlab, entry_twitter] \<rparr>"

definition entry_mygit :: PasswordEntry where
  "entry_mygit =
     \<lparr> service = lit ''My Git'', username = lit ''erin'', password = lit ''pw6'',
       id_entry = lit ''pwd_4_d'', createdAt = Some 4, updatedAt = Some 4 \<rparr>"

definition verbatim_manager :: DatabaseManager where
  "verbatim_manager = \<lparr> db = True, table = [entry_github, entry_gitlab, entry_mygit] \<rparr>"


definition entry_sigma :: PasswordEntry where
  "entry_sigma =
     \<lparr> service = [0x391, 0x3A3, 0x391], username = lit ''frank'', password = lit ''pw7'',
       id_entry = lit ''pwd_6_f'', createdAt = Some 6, updatedAt = Some 6 \<rparr>"


text \<open>A database that has just been created: no handle yet, nothing stored.\<close>

definition fresh_manager :: DatabaseManager where
  "fresh_manager = \<lparr> db = False, table = [] \<rparr>"

definition sample_data :: PasswordInsert where
  "sample_data = \<lparr> service = lit ''Mail'', username = lit ''dave'', password = lit ''pw4'' \<rparr>"

definition sample_updates :: PasswordUpdates where
  "sample_updates =
     \<lparr> service_upd = None, username_upd = None, password_upd = Some (lit ''pw5'') \<rparr>"

section \<open>Proofs\<close>

subsection \<open>Sorting\<close>

lemma mset_sort_insert: "mset (sort_insert cmp x xs) = add_mset x (mset xs)"
  by (induction xs) simp_all

lemma mset_array_sort: "mset (array_sort cmp xs) = mset xs"
  by (induction xs) (simp_all add: mset_sort_insert)

lemma set_sort_insert: "set (sort_insert cmp x xs) = insert x (set xs)"
  by (induction xs) auto

lemma set_array_sort: "set (array_sort cmp xs) = set xs"
  by (induction xs) (simp_all add: set_sort_insert)

text \<open>The comparison function returns a number that is not positive exactly when its
  first argument is modified no earlier than its second.\<close>

lemma later_or_same_iff:
  "later_or_same (updatedAt a) (updatedAt b) \<longleftrightarrow> by_updatedAt_desc a b \<le> 0"
  by (cases "updatedAt a"; cases "updatedAt b")
    (simp_all add: by_updatedAt_desc_def updatedAt_time_def)

lemma newest_first_iff:
  "newest_first rs \<longleftrightarrow> sorted_wrt (\<lambda>a b. by_updatedAt_desc a b \<le> 0) rs"
  by (simp add: newest_first_def later_or_same_iff)

lemma newest_first_sort_insert:
  "newest_first xs \<Longrightarrow> newest_first (sort_insert by_updatedAt_desc x xs)"
proof (induction xs)
  case Nil
  show ?case by (simp add: newest_first_def)
next
  case (Cons y ys)
  then show ?case
    by (auto simp: newest_first_iff by_updatedAt_desc_def set_sort_insert)
qed

lemma newest_first_array_sort: "newest_first (array_sort by_updatedAt_desc xs)"
proof (induction xs)
  case Nil
  show ?case by (simp add: newest_first_def)
next
  case (Cons x xs)
  then show ?case by (simp add: newest_first_sort_insert)
qed

subsection \<open>Strings\<close>

lemma starts_with_iff: "starts_with s t \<longleftrightarrow> (\<exists>ss. s = t @ ss)"
  by (induction s t rule: starts_with.induct) auto

lemma includes_str_iff: "includes_str s t \<longleftrightarrow> block_of t s"
proof (induction s)
  case Nil
  show ?case by (auto simp: block_of_def)
next
  case (Cons d s)
  have "block_of t (d # s) \<longleftrightarrow> (\<exists>ss. d # s = t @ ss) \<or> block_of t s"
    unfolding block_of_def
    by (auto simp: Cons_eq_append_conv)
  with Cons show ?case by (simp add: starts_with_iff del: starts_with.simps)
qed

lemma dropWhile_all_iff: "(\<forall>x\<in>set (dropWhile P xs). P x) \<longleftrightarrow> (\<forall>x\<in>set xs. P x)"
proof (cases "dropWhile P xs = []")
  case True
  then show ?thesis by (auto dest: set_dropWhileD)
next
  case False
  then have "\<not> P (hd (dropWhile P xs))" by (rule hd_dropWhile)
  moreover from False have "hd (dropWhile P xs) \<in> set (dropWhile P xs)" by simp
  moreover have "set (dropWhile P xs) \<subseteq> set xs" by (rule set_dropWhileD [THEN subsetI])
  ultimately show ?thesis by blast
qed

lemma trim_empty_iff: "trim q = [] \<longleftrightarrow> list_all is_space q"
  by (simp add: trim_def dropWhile_all_iff list_all_iff)

lemma lit_inject [simp]: "lit s = lit t \<longleftrightarrow> s = t"
  by (simp add: lit_def inj_map_eq_map inj_on_def)

subsection \<open>Reading the store\<close>

lemma ensureInitialized_opens: "ensureInitialized m = (Inr (), m\<lparr>db := True\<rparr>)"
  by (simp add: ensureInitialized_def initialize_def idb_open_def)

lemma getAllPasswords_eq:
  "getAllPasswords m = (Inr (array_sort by_updatedAt_desc (table m)), m\<lparr>db := True\<rparr>)"
  by (simp add: getAllPasswords_def ensureInitialized_opens store_getAll_def)

lemma searchPasswords_eq:
  "trim query \<noteq> [] \<Longrightarrow>
   searchPasswords L query m =
     (Inr (array_sort by_updatedAt_desc (filter (matches L (L query)) (table m))),
      m\<lparr>db := True\<rparr>)"
  by (simp add: searchPasswords_def ensureInitialized_opens store_getAll_def)

lemma searchPasswords_trim_empty:
  "trim query = [] \<Longrightarrow> searchPasswords L query m = getAllPasswords m"
  by (simp add: searchPasswords_def)

lemma searchPasswords_state: "snd (searchPasswords L query m) = m\<lparr>db := True\<rparr>"
  by (cases "trim query = []")
    (simp_all add: searchPasswords_trim_empty getAllPasswords_eq searchPasswords_eq)

lemmas sample_defs =
  sample_manager_def entry_github_def entry_gitlab_def entry_twitter_def
  by_updatedAt_desc_def updatedAt_time_def

text \<open>
  Claim C8. For every state of the store, \<^verbatim>\<open>getAllPasswords\<close> resolves, with every
  stored record exactly once (the result and the store are equal as multisets), most
  recently modified first; it leaves the store as it was, and on an empty store it
  resolves with the empty list.
\<close>

theorem getAllPasswords_all_sorted:
  "(\<exists>rs. fst (getAllPasswords m) = Inr rs \<and> mset rs = mset (table m) \<and> newest_first rs)
   \<and> table (snd (getAllPasswords m)) = table m
   \<and> fst (getAllPasswords (m\<lparr>table := []\<rparr>)) = Inr []"
  by (simp add: getAllPasswords_eq mset_array_sort newest_first_array_sort)

text \<open>On the sample store, held in the order of its keys with last-modified times 1, 3
  and 2, the list comes back with the times 3, 2 and 1.\<close>

theorem getAllPasswords_all_sorted_witness:
  "map updatedAt (table sample_manager) = [Some 1, Some 3, Some 2]
   \<and> fst (getAllPasswords sample_manager) = Inr [entry_gitlab, entry_twitter, entry_github]
   \<and> map updatedAt [entry_gitlab, entry_twitter, entry_github] = [Some 3, Some 2, Some 1]
   \<and> (\<exists>rs. fst (getAllPasswords sample_manager) = Inr rs
        \<and> mset rs = mset (table sample_manager) \<and> newest_first rs)"
proof -
  have "fst (getAllPasswords sample_manager) = Inr [entry_gitlab, entry_twitter, entry_github]"
    by (simp add: getAllPasswords_eq sample_defs)
  moreover have "map updatedAt (table sample_manager) = [Some 1, Some 3, Some 2]"
    and "map updatedAt [entry_gitlab, entry_twitter, entry_github] = [Some 3, Some 2, Some 1]"
    by (simp_all add: sample_defs)
  ultimately show ?thesis
    using getAllPasswords_all_sorted [of sample_manager] by simp
qed

text \<open>
  Claim C2. When the query is the empty string or has white space only,
  \<^verbatim>\<open>searchPasswords\<close> is \<^verbatim>\<open>getAllPasswords\<close>: the same outcome, records and order,
  and the same state afterwards.
\<close>

theorem searchPasswords_blank:
  "list_all is_space query \<Longrightarrow> searchPasswords toLowerCase query m = getAllPasswords m"
  by (simp add: searchPasswords_trim_empty trim_empty_iff)

theorem searchPasswords_blank_witness:
  "list_all is_space (lit '' '') \<and> list_all is_space []
   \<and> searchPasswords lower_fragment (lit '' '') sample_manager = getAllPasswords sample_manager
   \<and> searchPasswords lower_fragment [] sample_manager = getAllPasswords sample_manager
   \<and> fst (searchPasswords lower_fragment (lit '' '') sample_manager) =
       Inr [entry_gitlab, entry_twitter, entry_github]"
proof -
  have sp: "list_all is_space (lit '' '')" by (simp add: lit_def is_space_def)
  have em: "list_all is_space []" by simp
  have "fst (getAllPasswords sample_manager) = Inr [entry_gitlab, entry_twitter, entry_github]"
    by (simp add: getAllPasswords_eq sample_defs)
  with sp em searchPasswords_blank [OF sp, of lower_fragment sample_manager]
    searchPasswords_blank [OF em, of lower_fragment sample_manager]
  show ?thesis by simp
qed

subsection \<open>The object store\<close>

lemma store_find_None_iff: "store_find k es = None \<longleftrightarrow> k \<notin> id_entry ` set es"
  by (induction es) auto

lemma store_find_SomeD: "store_find k es = Some e \<Longrightarrow> e \<in> set es \<and> id_entry e = k"
  by (induction es) (auto split: if_splits)

lemma store_find_insert_same:
  "store_find (id_entry r) es = None \<Longrightarrow> store_find (id_entry r) (store_insert r es) = Some r"
  by (induction es) (auto split: if_splits)

lemma mset_store_insert: "mset (store_insert r es) = add_mset r (mset es)"
  by (induction es) auto

lemma set_store_insert: "set (store_insert r es) = insert r (set es)"
  using mset_store_insert [of r es] by (metis set_mset_add_mset_insert set_mset_mset)

lemma set_store_replace: "set (store_replace r es) \<subseteq> insert r (set es)"
  by (auto simp: store_replace_def)

lemma store_find_replace_same:
  "store_find (id_entry r) es = Some e \<Longrightarrow> store_find (id_entry r) (store_replace r es) = Some r"
  by (induction es) (auto simp: store_replace_def split: if_splits)

lemma in_store_replace:
  "store_find (id_entry r) es = Some e \<Longrightarrow> r \<in> set (store_replace r es)"
  using store_find_replace_same [of r es e] store_find_SomeD by blast

lemma store_find_filter_same: "store_find k (filter (\<lambda>e. id_entry e \<noteq> k) es) = None"
  by (induction es) auto

lemma store_find_filter_other:
  "k' \<noteq> k \<Longrightarrow> store_find k' (filter (\<lambda>e. id_entry e \<noteq> k) es) = store_find k' es"
  by (induction es) auto

subsection \<open>Writing the store\<close>

lemma merge_updates_fields:
  "merge_updates e u now =
     \<lparr> service = (case service_upd u of None \<Rightarrow> service e | Some v \<Rightarrow> v),
       username = (case username_upd u of None \<Rightarrow> username e | Some v \<Rightarrow> v),
       password = (case password_upd u of None \<Rightarrow> password e | Some v \<Rightarrow> v),
       id_entry = id_entry e,
       createdAt = createdAt e,
       updatedAt = Some now \<rparr>"
  by (simp add: merge_updates_def)

lemma id_entry_merge_updates [simp]: "id_entry (merge_updates e u now) = id_entry e"
  by (simp add: merge_updates_def)

lemma updatePassword_absent:
  "store_find k (table m) = None \<Longrightarrow>
   updatePassword now k u m = (Inl NotFound, m\<lparr>db := True\<rparr>)"
  by (simp add: updatePassword_def ensureInitialized_opens store_get_def)

lemma updatePassword_present:
  "store_find k (table m) = Some e \<Longrightarrow>
   updatePassword now k u m =
     (Inr (merge_updates e u now),
      m\<lparr>db := True, table := store_replace (merge_updates e u now) (table m)\<rparr>)"
proof -
  assume found: "store_find k (table m) = Some e"
  then have "id_entry e = k" by (simp add: store_find_SomeD)
  with found show ?thesis
    by (simp add: updatePassword_def ensureInitialized_opens store_get_def store_put_def Let_def)
qed

lemma deletePassword_eq:
  "deletePassword k m =
     (Inr (), m\<lparr>db := True, table := filter (\<lambda>e. id_entry e \<noteq> k) (table m)\<rparr>)"
  by (simp add: deletePassword_def ensureInitialized_opens store_delete_def)

lemma clearAll_eq: "clearAll m = (Inr (), m\<lparr>db := True, table := []\<rparr>)"
  by (simp add: clearAll_def ensureInitialized_opens store_clear_def)

text \<open>
  Claim C4. \<^verbatim>\<open>updatePassword\<close> rejects with the not-found error exactly when no stored
  record has the identifier. When the record \<open>e\<close> with the identifier exists, the call
  resolves with the record that has the payload's fields over those of \<open>e\<close>, the
  identifier and creation time of \<open>e\<close> and the clock reading as last-modified time, and
  that record is what the store then holds under the identifier.
\<close>

theorem updatePassword_notfound_or_merged:
  "(fst (updatePassword now k u m) = Inl NotFound) = (k \<notin> id_entry ` set (table m))
   \<and> (case store_find k (table m) of
        None \<Rightarrow> table (snd (updatePassword now k u m)) = table m
      | Some e \<Rightarrow>
          fst (updatePassword now k u m) =
            Inr \<lparr> service = (case service_upd u of None \<Rightarrow> service e | Some v \<Rightarrow> v),
                  username = (case username_upd u of None \<Rightarrow> username e | Some v \<Rightarrow> v),
                  password = (case password_upd u of None \<Rightarrow> password e | Some v \<Rightarrow> v),
                  id_entry = k,
                  createdAt = createdAt e,
                  updatedAt = Some now \<rparr>
          \<and> store_find k (table (snd (updatePassword now k u m))) =
              (case fst (updatePassword now k u m) of Inl x \<Rightarrow> None | Inr r \<Rightarrow> Some r))"
proof (cases "store_find k (table m)")
  case None
  then show ?thesis
    by (simp add: updatePassword_absent store_find_None_iff [symmetric])
next
  case (Some e)
  then have k: "id_entry e = k" and "k \<in> id_entry ` set (table m)"
    using store_find_SomeD [of k "table m" e] by auto
  moreover have "store_find k (store_replace (merge_updates e u now) (table m))
      = Some (merge_updates e u now)"
    using store_find_replace_same [of "merge_updates e u now" "table m" e] k Some by simp
  ultimately show ?thesis
    using Some by (simp add: updatePassword_present merge_updates_fields)
qed

theorem updatePassword_notfound_or_merged_witness:
  "fst (updatePassword 7 (lit ''pwd_9_z'') sample_updates sample_manager) = Inl NotFound
   \<and> (lit ''pwd_9_z'') \<notin> id_entry ` set (table sample_manager)
   \<and> fst (updatePassword 7 (lit ''pwd_2_b'') sample_updates sample_manager) =
       Inr \<lparr> service = lit ''gitlab'', username = lit ''bob'', password = lit ''pw5'',
             id_entry = lit ''pwd_2_b'', createdAt = Some 2, updatedAt = Some 7 \<rparr>
   \<and> store_find (lit ''pwd_2_b'') (table (snd (updatePassword 7 (lit ''pwd_2_b'') sample_updates sample_manager))) =
       Some \<lparr> service = lit ''gitlab'', username = lit ''bob'', password = lit ''pw5'',
              id_entry = lit ''pwd_2_b'', createdAt = Some 2, updatedAt = Some 7 \<rparr>"
  using updatePassword_notfound_or_merged [of 7 "lit ''pwd_9_z''" sample_updates sample_manager]
    updatePassword_notfound_or_merged [of 7 "lit ''pwd_2_b''" sample_updates sample_manager]
  by (simp add: sample_defs sample_updates_def)

text \<open>
  Claim C7. \<^verbatim>\<open>deletePassword\<close> always resolves. It removes the record with the
  identifier and nothing else; afterwards the store has no record under the identifier
  and an update of it is rejected as not found. A second call resolves too and changes
  nothing.
\<close>

theorem deletePassword_idempotent:
  "fst (deletePassword k m) = Inr ()
   \<and> table (snd (deletePassword k m)) = filter (\<lambda>e. id_entry e \<noteq> k) (table m)
   \<and> store_find k (table (snd (deletePassword k m))) = None
   \<and> k \<notin> id_entry ` set (table (snd (deletePassword k m)))
   \<and> fst (updatePassword now k u (snd (deletePassword k m))) = Inl NotFound
   \<and> fst (deletePassword k (snd (deletePassword k m))) = Inr ()
   \<and> snd (deletePassword k (snd (deletePassword k m))) = snd (deletePassword k m)"
  by (auto simp: deletePassword_eq store_find_filter_same updatePassword_absent)

text \<open>
  Claim C6. An update of an existing record \<open>e\<close> keeps its identifier and its creation
  time, keeps every field that the payload does not name, and leaves each other record of
  the store as it is and where it is: the store afterwards is the store before with the
  new record in place of the records under the identifier.
\<close>

theorem updatePassword_frame:
  "store_find k (table m) = Some e \<Longrightarrow>
   \<exists>e'. fst (updatePassword now k u m) = Inr e'
     \<and> id_entry e' = id_entry e
     \<and> createdAt e' = createdAt e
     \<and> (service_upd u = None \<longrightarrow> service e' = service e)
     \<and> (username_upd u = None \<longrightarrow> username e' = username e)
     \<and> (password_upd u = None \<longrightarrow> password e' = password e)
     \<and> table (snd (updatePassword now k u m)) =
         map (\<lambda>x. if id_entry x = k then e' else x) (table m)"
proof -
  assume found: "store_find k (table m) = Some e"
  then have "id_entry e = k" by (simp add: store_find_SomeD)
  with found show ?thesis
    by (simp add: updatePassword_present store_replace_def merge_updates_fields)
qed

theorem updatePassword_frame_witness:
  "store_find (lit ''pwd_2_b'') (table sample_manager) = Some entry_gitlab
   \<and> (\<exists>e'. fst (updatePassword 7 (lit ''pwd_2_b'') sample_updates sample_manager) = Inr e'
        \<and> id_entry e' = id_entry entry_gitlab
        \<and> createdAt e' = createdAt entry_gitlab
        \<and> (service_upd sample_updates = None \<longrightarrow> service e' = service entry_gitlab)
        \<and> (username_upd sample_updates = None \<longrightarrow> username e' = username entry_gitlab)
        \<and> (password_upd sample_updates = None \<longrightarrow> password e' = password entry_gitlab)
        \<and> table (snd (updatePassword 7 (lit ''pwd_2_b'') sample_updates sample_manager)) =
            map (\<lambda>x. if id_entry x = lit ''pwd_2_b'' then e' else x) (table sample_manager))
   \<and> service_upd sample_updates = None
   \<and> username_upd sample_updates = None
   \<and> table (snd (updatePassword 7 (lit ''pwd_2_b'') sample_updates sample_manager)) =
       [entry_github,
        \<lparr> service = lit ''gitlab'', username = lit ''bob'', password = lit ''pw5'',
          id_entry = lit ''pwd_2_b'', createdAt = Some 2, updatedAt = Some 7 \<rparr>,
        entry_twitter]"
proof -
  have found: "store_find (lit ''pwd_2_b'') (table sample_manager) = Some entry_gitlab"
    by (simp add: sample_defs)
  have "table (snd (updatePassword 7 (lit ''pwd_2_b'') sample_updates sample_manager)) =
       [entry_github,
        \<lparr> service = lit ''gitlab'', username = lit ''bob'', password = lit ''pw5'',
          id_entry = lit ''pwd_2_b'', createdAt = Some 2, updatedAt = Some 7 \<rparr>,
        entry_twitter]"
    by (simp add: updatePassword_def ensureInitialized_opens store_get_def store_put_def
        Let_def store_replace_def merge_updates_def sample_defs sample_updates_def)
  with found updatePassword_frame [OF found, of 7 sample_updates]
  show ?thesis by (simp add: sample_updates_def)
qed

lemma addPassword_fresh:
  "store_find (generateId idNow suffix) (table m) = None \<Longrightarrow>
   addPassword now idNow suffix d m =
     (Inr \<lparr> service = service d, username = username d, password = password d,
            id_entry = generateId idNow suffix, createdAt = Some now, updatedAt = Some now \<rparr>,
      m\<lparr>db := True,
        table := store_insert
          \<lparr> service = service d, username = username d, password = password d,
            id_entry = generateId idNow suffix, createdAt = Some now, updatedAt = Some now \<rparr>
          (table m)\<rparr>)"
  by (simp add: addPassword_def ensureInitialized_opens store_add_def Let_def)

lemma addPassword_taken:
  "store_find (generateId idNow suffix) (table m) = Some e \<Longrightarrow>
   addPassword now idNow suffix d m = (Inl AddFailed, m\<lparr>db := True\<rparr>)"
  by (simp add: addPassword_def ensureInitialized_opens store_add_def Let_def)

lemma generateId_5_abc: "generateId 5 (lit ''abc'') = lit ''pwd_5_abc''"
  by code_simp

text \<open>
  Claim C3: for all valid input data \<^verbatim>\<open>addPassword\<close> assigns a fresh identifier
  and both timestamps, persists the record and returns it. The source agrees that the
  identifier is meant to be fresh (\<^verbatim>\<open>generateId\<close> is documented as making a unique
  identifier), but the code does not reach it: the identifier is made of the clock
  reading and a random suffix and is never compared with the identifiers of the store.
  Two calls with the same input data that read the same millisecond and draw the same
  suffix make the same identifier; the first resolves, the engine rejects the second
  record, \<^verbatim>\<open>addPassword\<close> rejects with its write error, and the store keeps one
  record.
\<close>

theorem addPassword_same_id_counterexample:
  "fst (addPassword 5 5 (lit ''abc'') sample_data fresh_manager) =
     Inr \<lparr> service = lit ''Mail'', username = lit ''dave'', password = lit ''pw4'',
           id_entry = lit ''pwd_5_abc'', createdAt = Some 5, updatedAt = Some 5 \<rparr>
   \<and> fst (addPassword 5 5 (lit ''abc'') sample_data
            (snd (addPassword 5 5 (lit ''abc'') sample_data fresh_manager))) = Inl AddFailed
   \<and> map id_entry (table (snd (addPassword 5 5 (lit ''abc'') sample_data
            (snd (addPassword 5 5 (lit ''abc'') sample_data fresh_manager))))) = [lit ''pwd_5_abc'']"
  by (simp add: addPassword_def ensureInitialized_opens store_add_def Let_def
      generateId_5_abc fresh_manager_def sample_data_def)

text \<open>
  What \<^verbatim>\<open>addPassword\<close> does in general. When the generated identifier is not the
  identifier of a stored record, it resolves with the record made of the input data, that
  identifier and the clock reading as both timestamps; the store then holds the record
  in addition to what it held, and \<^verbatim>\<open>getAllPasswords\<close> lists it. When the generated
  identifier is already in the store, \<^verbatim>\<open>addPassword\<close> rejects with its write error and
  the store is unchanged.
\<close>

theorem addPassword_fresh_or_rejected:
  "(generateId idNow suffix \<notin> id_entry ` set (table m) \<longrightarrow>
      (\<exists>e rs. fst (addPassword now idNow suffix d m) = Inr e
         \<and> service e = service d \<and> username e = username d \<and> password e = password d
         \<and> id_entry e = generateId idNow suffix
         \<and> createdAt e = Some now \<and> updatedAt e = Some now
         \<and> createdAt e = updatedAt e
         \<and> mset (table (snd (addPassword now idNow suffix d m))) = add_mset e (mset (table m))
         \<and> store_find (id_entry e) (table (snd (addPassword now idNow suffix d m))) = Some e
         \<and> fst (getAllPasswords (snd (addPassword now idNow suffix d m))) = Inr rs
         \<and> e \<in> set rs))
   \<and> (generateId idNow suffix \<in> id_entry ` set (table m) \<longrightarrow>
        fst (addPassword now idNow suffix d m) = Inl AddFailed
        \<and> table (snd (addPassword now idNow suffix d m)) = table m)"
proof (cases "store_find (generateId idNow suffix) (table m)")
  case None
  let ?e = "\<lparr> service = service d, username = username d, password = password d,
            id_entry = generateId idNow suffix, createdAt = Some now, updatedAt = Some now \<rparr>"
  have "store_find (id_entry ?e) (store_insert ?e (table m)) = Some ?e"
    using None by (intro store_find_insert_same) simp
  moreover have "?e \<in> set (store_insert ?e (table m))"
    using mset_store_insert [of ?e "table m"] by (metis set_mset_mset union_single_eq_member)
  moreover have "generateId idNow suffix \<notin> id_entry ` set (table m)"
    using None by (simp add: store_find_None_iff)
  ultimately show ?thesis
    by (simp add: addPassword_fresh [OF None] getAllPasswords_eq set_array_sort
        mset_store_insert)
next
  case (Some e)
  then have "generateId idNow suffix \<in> id_entry ` set (table m)"
    using store_find_None_iff [of "generateId idNow suffix" "table m"] by simp
  then show ?thesis by (simp add: addPassword_taken [OF Some])
qed

theorem addPassword_fresh_or_rejected_witness:
  "generateId 5 (lit ''abc'') \<notin> id_entry ` set (table sample_manager)
   \<and> generateId 2 (lit ''b'') \<in> id_entry ` set (table sample_manager)
   \<and> fst (addPassword 9 5 (lit ''abc'') sample_data sample_manager) =
       Inr \<lparr> service = lit ''Mail'', username = lit ''dave'', password = lit ''pw4'',
             id_entry = lit ''pwd_5_abc'', createdAt = Some 9, updatedAt = Some 9 \<rparr>
   \<and> (\<exists>rs. fst (getAllPasswords (snd (addPassword 9 5 (lit ''abc'') sample_data sample_manager))) = Inr rs
        \<and> \<lparr> service = lit ''Mail'', username = lit ''dave'', password = lit ''pw4'',
             id_entry = lit ''pwd_5_abc'', createdAt = Some 9, updatedAt = Some 9 \<rparr> \<in> set rs)
   \<and> fst (addPassword 9 2 (lit ''b'') sample_data sample_manager) = Inl AddFailed
   \<and> table (snd (addPassword 9 2 (lit ''b'') sample_data sample_manager)) = table sample_manager"
proof -
  have g: "generateId 2 (lit ''b'') = lit ''pwd_2_b''" by code_simp
  have fresh: "generateId 5 (lit ''abc'') \<notin> id_entry ` set (table sample_manager)"
    by (simp add: generateId_5_abc sample_defs)
  have taken: "generateId 2 (lit ''b'') \<in> id_entry ` set (table sample_manager)"
    by (simp add: g sample_defs)
  have "fst (addPassword 9 5 (lit ''abc'') sample_data sample_manager) =
       Inr \<lparr> service = lit ''Mail'', username = lit ''dave'', password = lit ''pw4'',
             id_entry = lit ''pwd_5_abc'', createdAt = Some 9, updatedAt = Some 9 \<rparr>"
    by (simp add: addPassword_def ensureInitialized_opens store_add_def Let_def
        generateId_5_abc sample_defs sample_data_def)
  with fresh taken
    addPassword_fresh_or_rejected [of 5 "lit ''abc''" sample_manager 9 sample_data]
    addPassword_fresh_or_rejected [of 2 "lit ''b''" sample_manager 9 sample_data]
  show ?thesis by auto
qed

lemma sample_add_state: "snd (addPassword 5 5 (lit ''abc'') sample_data fresh_manager) =
   \<lparr> db = True,
     table = [\<lparr> service = lit ''Mail'', username = lit ''dave'', password = lit ''pw4'',
                id_entry = lit ''pwd_5_abc'', createdAt = Some 5, updatedAt = Some 5 \<rparr>] \<rparr>"
  by (simp add: addPassword_def ensureInitialized_opens store_add_def Let_def
      generateId_5_abc fresh_manager_def sample_data_def)

text \<open>
  Claim C5, as the specification states it, does not hold: the new last-modified time is
  the clock reading, whatever the old one was. An update in the millisecond of the add
  leaves the last-modified time where it was, so it is not strictly later.
\<close>

theorem update_same_millisecond_counterexample:
  "fst (addPassword 5 5 (lit ''abc'') sample_data fresh_manager) =
     Inr \<lparr> service = lit ''Mail'', username = lit ''dave'', password = lit ''pw4'',
           id_entry = lit ''pwd_5_abc'', createdAt = Some 5, updatedAt = Some 5 \<rparr>
   \<and> fst (updatePassword 5 (lit ''pwd_5_abc'') sample_updates
            (snd (addPassword 5 5 (lit ''abc'') sample_data fresh_manager))) =
     Inr \<lparr> service = lit ''Mail'', username = lit ''dave'', password = lit ''pw5'',
           id_entry = lit ''pwd_5_abc'', createdAt = Some 5, updatedAt = Some 5 \<rparr>
   \<and> fst (getAllPasswords (snd (updatePassword 5 (lit ''pwd_5_abc'') sample_updates
            (snd (addPassword 5 5 (lit ''abc'') sample_data fresh_manager))))) =
     Inr [\<lparr> service = lit ''Mail'', username = lit ''dave'', password = lit ''pw5'',
            id_entry = lit ''pwd_5_abc'', createdAt = Some 5, updatedAt = Some 5 \<rparr>]"
  by (simp add: addPassword_def updatePassword_def getAllPasswords_eq ensureInitialized_opens
      store_add_def store_get_def store_put_def store_replace_def merge_updates_def Let_def
      generateId_5_abc fresh_manager_def sample_data_def sample_updates_def)

text \<open>
  Claim C5, amended. After a successful update of the record under an identifier,
  \<^verbatim>\<open>getAllPasswords\<close> lists the merged record, and no other record under that
  identifier; every field that the payload names has the payload's value; the
  last-modified time is the clock reading of the update, so it is strictly later than
  before exactly when that reading is.
\<close>

theorem updatePassword_then_list:
  "store_find k (table m) = Some e \<Longrightarrow>
   \<exists>e' rs. fst (updatePassword now k u m) = Inr e'
     \<and> fst (getAllPasswords (snd (updatePassword now k u m))) = Inr rs
     \<and> e' \<in> set rs
     \<and> (\<forall>r\<in>set rs. id_entry r = k \<longrightarrow> r = e')
     \<and> id_entry e' = k
     \<and> (\<forall>v. service_upd u = Some v \<longrightarrow> service e' = v)
     \<and> (\<forall>v. username_upd u = Some v \<longrightarrow> username e' = v)
     \<and> (\<forall>v. password_upd u = Some v \<longrightarrow> password e' = v)
     \<and> updatedAt e' = Some now
     \<and> (updatedAt_time e < updatedAt_time e') = (updatedAt_time e < now)"
proof -
  let ?new = "merge_updates e u now"
  assume found: "store_find k (table m) = Some e"
  then have k: "id_entry e = k" by (simp add: store_find_SomeD)
  have "?new \<in> set (store_replace ?new (table m))"
    using in_store_replace [of ?new "table m" e] found k by simp
  moreover have "\<forall>r\<in>set (store_replace ?new (table m)). id_entry r = k \<longrightarrow> r = ?new"
    using k by (auto simp: store_replace_def)
  moreover have "updatedAt_time ?new = now"
    by (simp add: updatedAt_time_def merge_updates_def)
  moreover have "(\<forall>v. service_upd u = Some v \<longrightarrow> service ?new = v)
     \<and> (\<forall>v. username_upd u = Some v \<longrightarrow> username ?new = v)
     \<and> (\<forall>v. password_upd u = Some v \<longrightarrow> password ?new = v)
     \<and> updatedAt ?new = Some now"
    by (simp add: merge_updates_def)
  ultimately show ?thesis
    using found k
    by (simp add: updatePassword_present getAllPasswords_eq set_array_sort)
qed

theorem updatePassword_then_list_witness:
  "store_find (lit ''pwd_2_b'') (table sample_manager) = Some entry_gitlab
   \<and> password_upd sample_updates = Some (lit ''pw5'')
   \<and> (\<exists>e' rs. fst (updatePassword 7 (lit ''pwd_2_b'') sample_updates sample_manager) = Inr e'
        \<and> fst (getAllPasswords (snd (updatePassword 7 (lit ''pwd_2_b'') sample_updates sample_manager))) = Inr rs
        \<and> e' \<in> set rs
        \<and> password e' = lit ''pw5''
        \<and> updatedAt e' = Some 7
        \<and> updatedAt_time entry_gitlab < updatedAt_time e')"
proof -
  have found: "store_find (lit ''pwd_2_b'') (table sample_manager) = Some entry_gitlab"
    by (simp add: sample_defs)
  have pw: "password_upd sample_updates = Some (lit ''pw5'')"
    by (simp add: sample_updates_def)
  have before: "updatedAt_time entry_gitlab < 7"
    by (simp add: sample_defs)
  from updatePassword_then_list [OF found, of 7 sample_updates] found pw before
  show ?thesis by auto
qed

subsection \<open>Histories\<close>

lemma run_snoc: "run (cs @ [c]) m = perform c (run cs m)"
  by (induction cs arbitrary: m) simp_all

text \<open>Every record of the store after a call was there before, or is the record that an
  add made, or is a stored record with its fields and last-modified time updated.\<close>

lemma perform_entries:
  assumes "e \<in> set (table (perform c m))"
  shows "e \<in> set (table m)
     \<or> (\<exists>now idNow suffix d. c = Add now idNow suffix d \<and> createdAt e = Some now \<and> updatedAt e = Some now)
     \<or> (\<exists>now k u old. c = Update now k u \<and> old \<in> set (table m) \<and> e = merge_updates old u now)"
proof (cases c)
  case (Add now idNow suffix d)
  show ?thesis
  proof (cases "store_find (generateId idNow suffix) (table m)")
    case None
    with assms Add show ?thesis
      by (auto simp: addPassword_fresh set_store_insert)
  next
    case (Some x)
    with assms Add show ?thesis
      by (simp add: addPassword_taken)
  qed
next
  case (Update now k u)
  show ?thesis
  proof (cases "store_find k (table m)")
    case None
    with assms Update show ?thesis
      by (simp add: updatePassword_absent)
  next
    case (Some old)
    then have "old \<in> set (table m)" by (simp add: store_find_SomeD)
    with assms Update Some show ?thesis
      using set_store_replace [of "merge_updates old u now" "table m"]
      by (auto simp: updatePassword_present)
  qed
next
  case (Delete k)
  with assms show ?thesis by (simp add: deletePassword_eq)
next
  case ListAll
  with assms show ?thesis by (simp add: getAllPasswords_eq)
next
  case (Search L q)
  with assms show ?thesis by (simp add: searchPasswords_state)
next
  case Clear
  with assms show ?thesis by (simp add: clearAll_eq)
qed

lemma perform_has_timestamps:
  "list_all has_timestamps (table m) \<Longrightarrow> list_all has_timestamps (table (perform c m))"
  unfolding list_all_iff
proof
  fix e
  assume inv: "\<forall>x\<in>set (table m). has_timestamps x" and "e \<in> set (table (perform c m))"
  from perform_entries [OF this(2)] inv show "has_timestamps e"
    by (auto simp: has_timestamps_def merge_updates_def)
qed

lemma run_has_timestamps:
  "list_all has_timestamps (table m) \<Longrightarrow> list_all has_timestamps (table (run cs m))"
  by (induction cs arbitrary: m) (simp_all add: perform_has_timestamps)

lemma perform_updatedAt_reading:
  assumes "\<forall>x\<in>set (table m). updatedAt x \<in> Some ` R"
    and "e \<in> set (table (perform c m))"
  shows "updatedAt e \<in> Some ` (R \<union> set (readings c))"
  using perform_entries [OF assms(2)] assms(1)
  by (auto simp: merge_updates_def)

lemma run_updatedAt_reading:
  "e \<in> set (table (run cs fresh_manager)) \<Longrightarrow> updatedAt e \<in> Some ` set (clock_trace cs)"
proof (induction cs arbitrary: e rule: rev_induct)
  case Nil
  then show ?case by (simp add: fresh_manager_def)
next
  case (snoc c cs)
  have "\<forall>x\<in>set (table (run cs fresh_manager)). updatedAt x \<in> Some ` set (clock_trace cs)"
    using snoc.IH by blast
  from perform_updatedAt_reading [OF this, of e c] snoc.prems
  show ?case by (simp add: run_snoc clock_trace_def)
qed

text \<open>The store of a history is a valid object store: its keys are in strictly
  ascending order, so no two records share an identifier.\<close>

lemma key_less_irrefl: "\<not> key_less a a"
  by (induction a) simp_all

lemma key_less_trans: "key_less a b \<Longrightarrow> key_less b c \<Longrightarrow> key_less a c"
proof (induction a b arbitrary: c rule: key_less.induct)
  case (2 c' t)
  then show ?case by (cases c) simp_all
next
  case (4 d s c' t)
  then show ?case by (cases c) auto
qed simp_all

lemma key_less_total: "a \<noteq> b \<Longrightarrow> key_less a b \<or> key_less b a"
  by (induction a b rule: key_less.induct) auto

lemma key_ordered_insert:
  "key_ordered es \<Longrightarrow> id_entry r \<notin> id_entry ` set es \<Longrightarrow> key_ordered (store_insert r es)"
proof (induction es)
  case Nil
  then show ?case by (simp add: key_ordered_def)
next
  case (Cons e es)
  then show ?case
    using key_less_total [of "id_entry r" "id_entry e"]
    by (auto simp: key_ordered_def set_store_insert intro: key_less_trans)
qed

lemma ids_store_replace: "map id_entry (store_replace r es) = map id_entry es"
  by (simp add: store_replace_def)

lemma key_ordered_replace: "key_ordered es \<Longrightarrow> key_ordered (store_replace r es)"
  by (simp add: key_ordered_def ids_store_replace)

lemma key_ordered_filter: "key_ordered es \<Longrightarrow> key_ordered (filter P es)"
  by (induction es) (auto simp: key_ordered_def)

lemma perform_key_ordered: "key_ordered (table m) \<Longrightarrow> key_ordered (table (perform c m))"
proof (cases c)
  case (Add now idNow suffix d)
  assume inv: "key_ordered (table m)"
  show ?thesis
  proof (cases "store_find (generateId idNow suffix) (table m)")
    case None
    with inv Add show ?thesis
      by (simp add: addPassword_fresh key_ordered_insert store_find_None_iff)
  next
    case (Some x)
    with inv Add show ?thesis by (simp add: addPassword_taken)
  qed
next
  case (Update now k u)
  assume inv: "key_ordered (table m)"
  show ?thesis
  proof (cases "store_find k (table m)")
    case None
    with inv Update show ?thesis by (simp add: updatePassword_absent)
  next
    case (Some old)
    with inv Update show ?thesis by (simp add: updatePassword_present key_ordered_replace)
  qed
next
  case (Delete k)
  assume "key_ordered (table m)"
  with Delete show ?thesis by (simp add: deletePassword_eq key_ordered_filter)
next
  case ListAll
  assume "key_ordered (table m)"
  with ListAll show ?thesis by (simp add: getAllPasswords_eq)
next
  case (Search L q)
  assume "key_ordered (table m)"
  with Search show ?thesis by (simp add: searchPasswords_state)
next
  case Clear
  assume "key_ordered (table m)"
  with Clear show ?thesis by (simp add: clearAll_eq key_ordered_def)
qed

lemma run_key_ordered: "key_ordered (table m) \<Longrightarrow> key_ordered (table (run cs m))"
  by (induction cs arbitrary: m) (simp_all add: perform_key_ordered)

lemma key_ordered_distinct: "key_ordered es \<Longrightarrow> distinct (map id_entry es)"
  unfolding key_ordered_def
  by (induction es) (auto simp: key_less_irrefl)

lemma reachable_key_ordered:
  "key_ordered (table (run cs fresh_manager)) \<and> distinct (map id_entry (table (run cs fresh_manager)))"
  using run_key_ordered [of fresh_manager cs] key_ordered_distinct
  by (simp add: fresh_manager_def key_ordered_def)

text \<open>
  Claim C9, as the specification states it, does not hold: an update writes the clock
  reading and never compares it with the stored time, so a clock that was set back
  between two calls moves the last-modified time backwards.
\<close>

theorem update_backwards_clock_counterexample:
  "map updatedAt (table (run [Add 5 5 (lit ''abc'') sample_data] fresh_manager)) = [Some 5]
   \<and> map updatedAt (table (run [Add 5 5 (lit ''abc'') sample_data,
         Update 4 (lit ''pwd_5_abc'') sample_updates] fresh_manager)) = [Some 4]"
  by (simp add: addPassword_def updatePassword_def ensureInitialized_opens store_add_def
      store_get_def store_put_def store_replace_def merge_updates_def Let_def
      generateId_5_abc fresh_manager_def sample_data_def sample_updates_def)

text \<open>
  Claim C9, amended. After every sequence of calls on a new database each stored record
  has both timestamps. An update sets the last-modified time to its clock reading; when
  the clock readings of the calls so far and of the update never decrease, the
  last-modified time of the updated record does not decrease.
\<close>

theorem timestamps_set_and_follow_clock:
  "list_all has_timestamps (table (run cs fresh_manager))
   \<and> (sorted (clock_trace cs @ [now]) \<longrightarrow>
      store_find k (table (run cs fresh_manager)) = Some old \<longrightarrow>
      (\<exists>new. fst (updatePassword now k u (run cs fresh_manager)) = Inr new
         \<and> store_find k (table (run (cs @ [Update now k u]) fresh_manager)) = Some new
         \<and> updatedAt new = Some now
         \<and> updatedAt_time old \<le> updatedAt_time new))"
proof (intro conjI impI)
  show "list_all has_timestamps (table (run cs fresh_manager))"
    by (rule run_has_timestamps) (simp add: fresh_manager_def)
next
  let ?m = "run cs fresh_manager"
  let ?new = "merge_updates old u now"
  assume clock: "sorted (clock_trace cs @ [now])" and found: "store_find k (table ?m) = Some old"
  from found have old: "old \<in> set (table ?m)" and k: "id_entry old = k"
    by (simp_all add: store_find_SomeD)
  from old have "updatedAt old \<in> Some ` set (clock_trace cs)"
    by (rule run_updatedAt_reading)
  with clock have "updatedAt_time old \<le> now"
    by (auto simp: sorted_append updatedAt_time_def)
  moreover have "updatedAt_time ?new = now"
    by (simp add: updatedAt_time_def merge_updates_def)
  moreover have "store_find k (store_replace ?new (table ?m)) = Some ?new"
    using store_find_replace_same [of ?new "table ?m" old] found k by simp
  ultimately
  show "\<exists>new. fst (updatePassword now k u ?m) = Inr new
         \<and> store_find k (table (run (cs @ [Update now k u]) fresh_manager)) = Some new
         \<and> updatedAt new = Some now
         \<and> updatedAt_time old \<le> updatedAt_time new"
    using found by (simp add: run_snoc updatePassword_present merge_updates_def)
qed

theorem timestamps_set_and_follow_clock_witness:
  "sorted (clock_trace [Add 5 5 (lit ''abc'') sample_data] @ [7])
   \<and> store_find (lit ''pwd_5_abc'') (table (run [Add 5 5 (lit ''abc'') sample_data] fresh_manager)) =
       Some \<lparr> service = lit ''Mail'', username = lit ''dave'', password = lit ''pw4'',
              id_entry = lit ''pwd_5_abc'', createdAt = Some 5, updatedAt = Some 5 \<rparr>
   \<and> list_all has_timestamps (table (run [Add 5 5 (lit ''abc'') sample_data] fresh_manager))
   \<and> (\<exists>new. fst (updatePassword 7 (lit ''pwd_5_abc'') sample_updates
                    (run [Add 5 5 (lit ''abc'') sample_data] fresh_manager)) = Inr new
        \<and> store_find (lit ''pwd_5_abc'') (table (run ([Add 5 5 (lit ''abc'') sample_data]
              @ [Update 7 (lit ''pwd_5_abc'') sample_updates]) fresh_manager)) = Some new
        \<and> updatedAt new = Some 7
        \<and> 5 \<le> updatedAt_time new)"
proof -
  let ?old = "\<lparr> service = lit ''Mail'', username = lit ''dave'', password = lit ''pw4'',
              id_entry = lit ''pwd_5_abc'', createdAt = Some 5, updatedAt = Some 5 \<rparr>"
  have clock: "sorted (clock_trace [Add 5 5 (lit ''abc'') sample_data] @ [7])"
    by (simp add: clock_trace_def)
  have found: "store_find (lit ''pwd_5_abc'') (table (run [Add 5 5 (lit ''abc'') sample_data] fresh_manager)) = Some ?old"
    by (simp add: sample_add_state)
  have "updatedAt_time ?old = 5" by (simp add: updatedAt_time_def)
  with clock found
    timestamps_set_and_follow_clock [of "[Add 5 5 (lit ''abc'') sample_data]" 7 "lit ''pwd_5_abc''" ?old sample_updates]
  show ?thesis by simp
qed

subsection \<open>Searching\<close>

lemma matches_block:
  "matches L (L q) p \<longleftrightarrow> block_of (L q) (L (service p)) \<or> block_of (L q) (L (username p))"
  by (simp add: matches_def includes_str_iff)

lemma block_of_set: "block_of t s \<Longrightarrow> set t \<subseteq> set s"
  by (auto simp: block_of_def)

text \<open>\<open>lower_fragment\<close> neither makes nor drops white space.\<close>

lemma lower_unit_space: "w \<in> set (lower_unit f c) \<Longrightarrow> is_space w \<Longrightarrow> c = w"
  unfolding lower_unit_def is_space_def
  by (auto split: if_splits)

lemma lower_unit_of_space: "is_space w \<Longrightarrow> lower_unit f w = [w]"
proof -
  assume "is_space w"
  then consider "w \<le> 0x20" | "w = 0xA0" | "0x1680 \<le> w"
    unfolding is_space_def by auto
  then show ?thesis
    by cases (simp_all add: lower_unit_def)
qed

lemma lower_from_space: "is_space w \<Longrightarrow> w \<in> set (lower_from bef s) \<longleftrightarrow> w \<in> set s"
proof (induction s arbitrary: bef)
  case Nil
  show ?case by simp
next
  case (Cons c s)
  show ?case
  proof (cases "c = w")
    case True
    with Cons.prems show ?thesis by (simp add: lower_unit_of_space)
  next
    case False
    with Cons.prems have "w \<notin> set (lower_unit (final_sigma bef s) c)"
      using lower_unit_space by blast
    with False Cons show ?thesis by simp
  qed
qed

lemma lower_fragment_space: "is_space w \<Longrightarrow> w \<in> set (lower_fragment x) \<longleftrightarrow> w \<in> set x"
  by (simp add: lower_fragment_def lower_from_space)

lemmas lower_defs =
  lower_fragment_def lower_unit_def final_sigma_def next_is_cased_def cased_def
  case_ignorable_def lit_def

lemmas entry_defs =
  entry_github_def entry_gitlab_def entry_twitter_def entry_mygit_def entry_sigma_def




text \<open>
  Claim C10. A query that is white space only falls back to \<^verbatim>\<open>getAllPasswords\<close>.
  Every other query is matched as it is given, not trimmed: the result has exactly the
  stored records whose lower-cased service or username has the lower-casing of the
  whole query as a substring. When lower-casing neither makes nor drops white space, as
  that of the platform does, each white-space code unit of the query, leading and
  trailing ones too, stands in the service or in the username of every record returned.
\<close>

theorem searchPasswords_verbatim:
  "(list_all is_space q \<longrightarrow> searchPasswords toLowerCase q m = getAllPasswords m)
   \<and> (\<not> list_all is_space q \<longrightarrow>
       (\<exists>rs. fst (searchPasswords toLowerCase q m) = Inr rs
          \<and> set rs = {r \<in> set (table m).
                block_of (toLowerCase q) (toLowerCase (service r))
                \<or> block_of (toLowerCase q) (toLowerCase (username r))}
          \<and> ((\<forall>x. {w \<in> set (toLowerCase x). is_space w} = {w \<in> set x. is_space w}) \<longrightarrow>
               (\<forall>r\<in>set rs.
                  {w \<in> set q. is_space w} \<subseteq> set (service r) \<union> set (username r)))))"
proof (intro conjI impI)
  assume "list_all is_space q"
  then show "searchPasswords toLowerCase q m = getAllPasswords m"
    by (simp add: searchPasswords_trim_empty trim_empty_iff)
next
  let ?rs = "array_sort by_updatedAt_desc (filter (matches toLowerCase (toLowerCase q)) (table m))"
  let ?hit = "\<lambda>r. block_of (toLowerCase q) (toLowerCase (service r))
                \<or> block_of (toLowerCase q) (toLowerCase (username r))"
  assume "\<not> list_all is_space q"
  then have res: "fst (searchPasswords toLowerCase q m) = Inr ?rs"
    by (simp add: searchPasswords_eq trim_empty_iff)
  have hits: "set ?rs = {r \<in> set (table m). ?hit r}"
    by (auto simp: set_array_sort matches_block)
  have spaces: "\<forall>r\<in>set ?rs. {w \<in> set q. is_space w} \<subseteq> set (service r) \<union> set (username r)"
    if keeps: "\<forall>x. {w \<in> set (toLowerCase x). is_space w} = {w \<in> set x. is_space w}"
  proof (intro ballI subsetI)
    fix r w
    assume r: "r \<in> set ?rs" and "w \<in> {w \<in> set q. is_space w}"
    then have w: "w \<in> {w \<in> set (toLowerCase q). is_space w}"
      using keeps by simp
    from r hits have "?hit r" by simp
    with w have "w \<in> {w \<in> set (toLowerCase (service r)). is_space w}
        \<or> w \<in> {w \<in> set (toLowerCase (username r)). is_space w}"
      using block_of_set by blast
    with keeps have "w \<in> {w \<in> set (service r). is_space w}
        \<or> w \<in> {w \<in> set (username r). is_space w}"
      by simp
    then show "w \<in> set (service r) \<union> set (username r)" by blast
  qed
  from res hits spaces
  show "\<exists>rs. fst (searchPasswords toLowerCase q m) = Inr rs
          \<and> set rs = {r \<in> set (table m). ?hit r}
          \<and> ((\<forall>x. {w \<in> set (toLowerCase x). is_space w} = {w \<in> set x. is_space w}) \<longrightarrow>
               (\<forall>r\<in>set rs.
                  {w \<in> set q. is_space w} \<subseteq> set (service r) \<union> set (username r)))"
    by blast
qed

theorem searchPasswords_verbatim_witness:
  "\<not> list_all is_space (lit '' git'')
   \<and> (\<forall>x. {w \<in> set (lower_fragment x). is_space w} = {w \<in> set x. is_space w})
   \<and> fst (searchPasswords lower_fragment (lit '' git'') verbatim_manager) = Inr [entry_mygit]
   \<and> fst (searchPasswords lower_fragment (lit ''git'') verbatim_manager) =
       Inr [entry_mygit, entry_gitlab, entry_github]
   \<and> {w \<in> set (lit '' git''). is_space w} \<subseteq> set (service entry_mygit) \<union> set (username entry_mygit)
   \<and> 0x20 \<in> {w \<in> set (lit '' git''). is_space w}
   \<and> 0x20 \<in> set (service entry_mygit)
   \<and> 0x20 \<notin> set (service entry_github) \<union> set (username entry_github)"
proof -
  have q: "\<not> list_all is_space (lit '' git'')"
    by (simp add: lit_def is_space_def)
  then have ne1: "trim (lit '' git'') \<noteq> []"
    by (simp add: trim_empty_iff)
  have ne2: "trim (lit ''git'') \<noteq> []"
    by (simp add: trim_def lit_def is_space_def)
  have keeps: "\<forall>x. {w \<in> set (lower_fragment x). is_space w} = {w \<in> set x. is_space w}"
    using lower_fragment_space by blast
  have f1: "filter (matches lower_fragment (lower_fragment (lit '' git''))) (table verbatim_manager) =
       [entry_mygit]"
    and f2: "filter (matches lower_fragment (lower_fragment (lit ''git''))) (table verbatim_manager) =
       [entry_github, entry_gitlab, entry_mygit]"
    by (simp_all add: verbatim_manager_def matches_def lower_defs entry_defs)
  have s1: "array_sort by_updatedAt_desc [entry_mygit] = [entry_mygit]"
    and s2: "array_sort by_updatedAt_desc [entry_github, entry_gitlab, entry_mygit] =
       [entry_mygit, entry_gitlab, entry_github]"
    by (simp_all add: by_updatedAt_desc_def updatedAt_time_def entry_defs)
  have r1: "fst (searchPasswords lower_fragment (lit '' git'') verbatim_manager) = Inr [entry_mygit]"
    by (simp only: searchPasswords_eq [OF ne1] f1 s1 fst_conv)
  have r2: "fst (searchPasswords lower_fragment (lit ''git'') verbatim_manager) =
       Inr [entry_mygit, entry_gitlab, entry_github]"
    by (simp only: searchPasswords_eq [OF ne2] f2 s2 fst_conv)
  have sp: "0x20 \<in> set (service entry_mygit)"
    and nsp: "0x20 \<notin> set (service entry_github) \<union> set (username entry_github)"
    and qsp: "0x20 \<in> {w \<in> set (lit '' git''). is_space w}"
    by (simp_all add: entry_defs lit_def is_space_def)
  from searchPasswords_verbatim [of "lit '' git''" lower_fragment verbatim_manager] q keeps r1
  have "{w \<in> set (lit '' git''). is_space w}
      \<subseteq> set (service entry_mygit) \<union> set (username entry_mygit)"
    by auto
  with q keeps r1 r2 sp nsp qsp show ?thesis by (intro conjI)
qed

end
